theory Spec2Isabelle
  imports Main "HOL-Library.Sublist"
begin

section \<open>The lambda-invoke bootstrap: data model\<close>

text \<open>
  The program is \<^verbatim>\<open>packages/cli/assets/lambda-invoke/bootstrap.js\<close>. It loads a user
  handler, runs it once inside a promise, reports the promise's settlement to the parent
  process with \<^verbatim>\<open>process.send\<close>, and decides when to call \<^verbatim>\<open>process.exit\<close>.

  JavaScript values that travel through the harness. Every value here is a plain datum:
  none of them has a callable \<^verbatim>\<open>then\<close> member (a handler that returns a thenable is the
  separate constructor \<open>ReturnsThenable\<close> below). \<open>Error m\<close> is \<^verbatim>\<open>new Error(m)\<close>.
\<close>

datatype jsval =
    Undefined
  | Null
  | Boolean bool
  | Number int
  | Str string
  | Error string
  | Obj nat

text \<open>The condition of \<^verbatim>\<open>err ? reject(err) : resolve(data)\<close>: JavaScript truthiness.\<close>

fun truthy :: "jsval \<Rightarrow> bool" where
  "truthy Undefined = False"
| "truthy Null = False"
| "truthy (Boolean b) = b"
| "truthy (Number n) = (n \<noteq> 0)"
| "truthy (Str s) = (s \<noteq> [])"
| "truthy (Error m) = True"
| "truthy (Obj n) = True"

text \<open>The promise created by the wrapper that \<^verbatim>\<open>getHandler\<close> returns.\<close>

datatype settlement = Pending | Fulfilled jsval | Rejected jsval

text \<open>
  The two wire shapes handed to \<^verbatim>\<open>process.send\<close>:
  \<^verbatim>\<open>{type: "success", data}\<close> and \<^verbatim>\<open>{type: "failure", error}\<close>. The error field is what
  \<^verbatim>\<open>serializeError\<close> returns; that routine lives outside this file, so its result type is the
  parameter \<open>'e\<close> and the routine itself is the parameter \<open>ser\<close> of the functions below.
\<close>

datatype 'e message = Success jsval | Failure 'e

text \<open>
  What runs when the transport confirms a message (the second argument of
  \<^verbatim>\<open>process.send\<close> resolves the promise that the sender awaits):
  \<^item> \<open>StartCatch\<close>: the rest of the catch block of \<^verbatim>\<open>start\<close> (line 43);
  \<^item> \<open>ProcessEventsTry\<close>: \<^verbatim>\<open>processEvents\<close> after \<^verbatim>\<open>await invokeResponse(result)\<close>
    (lines 74 to 105);
  \<^item> \<open>ProcessEventsCatch\<close>: \<^verbatim>\<open>processEvents\<close> after \<^verbatim>\<open>await invokeError(e)\<close> (line 71);
  \<^item> \<open>CallbackCb\<close>: the function given to \<^verbatim>\<open>invokeResponse\<close> by \<^verbatim>\<open>callback\<close>
    (lines 141 to 149).
\<close>

datatype continuation = StartCatch | ProcessEventsTry | ProcessEventsCatch | CallbackCb

text \<open>
  What the parent process and the operating system can observe, in order: a message handed
  to the transport (numbered in the order of sending), the transport's confirmation of a
  message, and the call of \<^verbatim>\<open>process.exit\<close>.
\<close>

datatype 'e effect = Send nat "'e message" | Confirm nat | Exit nat

text \<open>
  The state of the process. \<open>CALLBACK_USED\<close>, \<open>ASYNC_HANDLER\<close> and \<open>EXIT_ON_CALLBACK\<close> are
  the symbol-keyed properties of \<^verbatim>\<open>CONTEXT\<close>; the code only ever stores \<^verbatim>\<open>true\<close> there and
  only tests \<^verbatim>\<open>=== true\<close>, so each is a boolean that starts false.
  \<open>callbackWaitsForEmptyEventLoop\<close> is an ordinary property that the context seed or the
  handler may set to any value; the code tests \<^verbatim>\<open>=== false\<close>.
  \<open>awaiting\<close> holds while \<^verbatim>\<open>processEvents\<close> is suspended at \<^verbatim>\<open>await handler(EVENT, CONTEXT)\<close>.
  \<open>outstanding\<close> are the messages handed to the transport and not yet confirmed, oldest
  first, each with what runs at its confirmation.
\<close>

record 'e state =
  promise :: settlement
  CALLBACK_USED :: bool
  ASYNC_HANDLER :: bool
  EXIT_ON_CALLBACK :: bool
  callbackWaitsForEmptyEventLoop :: jsval
  awaiting :: bool
  invocations :: nat
  outstanding :: "(nat \<times> continuation) list"
  sent :: nat
  trace :: "'e effect list"
  exited :: "nat option"

text \<open>
  What the user handler does with the harness. During one run of its code it may call the
  raw callback (its third argument), \<^verbatim>\<open>context.succeed\<close>, \<^verbatim>\<open>context.fail\<close>,
  \<^verbatim>\<open>context.done\<close>, and assign \<^verbatim>\<open>context.callbackWaitsForEmptyEventLoop\<close>. A missing
  argument is \<open>Undefined\<close>. The synchronous call \<^verbatim>\<open>userHandler(event, context, callback)\<close>
  performs a list of such actions and then returns a plain value, returns a thenable, or
  throws.
\<close>

datatype action =
    Callback jsval jsval
  | Succeed jsval
  | Fail jsval
  | Done jsval jsval
  | SetWaits jsval

datatype completion = Returns jsval | ReturnsThenable | Throws jsval

datatype handler = Handler "action list" completion

text \<open>A property of the loaded module: a function, or any other value.\<close>

datatype export = Function handler | Value jsval

text \<open>
  What happens after the main script, one task of the event loop at a time:
  the transport confirms the oldest outstanding message; code of the handler runs later
  (a timer, an I/O callback, a promise reaction) and performs some actions; the thenable
  that the handler returned resolves or rejects.

  The order of the tasks is not fixed by the program, so a run takes the list of tasks as
  an argument and a property of every run quantifies over all lists. Messages are
  confirmed in the order of sending, each confirmation in a task of its own (the
  completion of an asynchronous write on the IPC channel). The code of the harness that
  is waiting for a confirmation or for the promise runs to its next await within the task
  that wakes it up. The handler is assumed to use the harness only through the actions
  above: it does not replace \<^verbatim>\<open>context.done\<close>, does not pass a thenable to a completion
  entry point, and does not end the process itself.
\<close>

datatype task =
    Confirmed
  | Later "action list"
  | ThenableResolves jsval
  | ThenableRejects jsval

section \<open>The operations\<close>

definition initial :: "jsval \<Rightarrow> 'e state" where
  "initial waits =
     \<lparr> promise = Pending, CALLBACK_USED = False, ASYNC_HANDLER = False,
       EXIT_ON_CALLBACK = False, callbackWaitsForEmptyEventLoop = waits,
       awaiting = False, invocations = 0, outstanding = [], sent = 0, trace = [],
       exited = None \<rparr>"

text \<open>\<^verbatim>\<open>process.send(msg, () => resolve())\<close> followed by the code \<open>k\<close> that waits for it.\<close>

definition send :: "'e message \<Rightarrow> continuation \<Rightarrow> 'e state \<Rightarrow> 'e state" where
  "send msg k s =
     s\<lparr> outstanding := outstanding s @ [(sent s, k)],
        trace := trace s @ [Send (sent s) msg],
        sent := Suc (sent s) \<rparr>"

text \<open>Line 180: \<^verbatim>\<open>result === undefined ? null : result\<close>.\<close>

definition payload :: "jsval \<Rightarrow> jsval" where
  "payload result = (if result = Undefined then Null else result)"

text \<open>Lines 174 to 186; \<open>k\<close> is the code that runs once the awaited promise resolves.\<close>

definition invokeResponse :: "jsval \<Rightarrow> continuation \<Rightarrow> 'e state \<Rightarrow> 'e state" where
  "invokeResponse result k s = send (Success (payload result)) k s"

text \<open>Lines 188 to 199.\<close>

definition invokeError ::
  "(jsval \<Rightarrow> 'e) \<Rightarrow> jsval \<Rightarrow> continuation \<Rightarrow> 'e state \<Rightarrow> 'e state" where
  "invokeError ser err k s = send (Failure (ser err)) k s"

definition exit :: "nat \<Rightarrow> 'e state \<Rightarrow> 'e state" where
  "exit code s = s\<lparr> exited := Some code, trace := trace s @ [Exit code] \<rparr>"

text \<open>
  The \<^verbatim>\<open>resolve\<close> and \<^verbatim>\<open>reject\<close> functions of the promise (lines 127 to 129): only the
  first call has an effect. \<^verbatim>\<open>context.succeed\<close> and \<^verbatim>\<open>context.fail\<close> are these functions.
\<close>

definition resolve :: "jsval \<Rightarrow> 'e state \<Rightarrow> 'e state" where
  "resolve v s = (if promise s = Pending then s\<lparr> promise := Fulfilled v \<rparr> else s)"

definition reject :: "jsval \<Rightarrow> 'e state \<Rightarrow> 'e state" where
  "reject e s = (if promise s = Pending then s\<lparr> promise := Rejected e \<rparr> else s)"

definition succeed :: "jsval \<Rightarrow> 'e state \<Rightarrow> 'e state" where
  "succeed = resolve"

definition fail :: "jsval \<Rightarrow> 'e state \<Rightarrow> 'e state" where
  "fail = reject"

text \<open>Line 130.\<close>

definition done_cb :: "jsval \<Rightarrow> jsval \<Rightarrow> 'e state \<Rightarrow> 'e state" where
  "done_cb err data s = (if truthy err then reject err s else resolve data s)"

text \<open>Lines 133 to 150, up to the point where \<^verbatim>\<open>invokeResponse\<close> awaits.\<close>

definition callback :: "jsval \<Rightarrow> jsval \<Rightarrow> 'e state \<Rightarrow> 'e state" where
  "callback err data s =
     invokeResponse data CallbackCb (done_cb err data (s\<lparr> CALLBACK_USED := True \<rparr>))"

fun perform :: "'e state \<Rightarrow> action \<Rightarrow> 'e state" where
  "perform s (Callback err data) = callback err data s"
| "perform s (Succeed v) = succeed v s"
| "perform s (Fail e) = fail e s"
| "perform s (Done err data) = done_cb err data s"
| "perform s (SetWaits w) = s\<lparr> callbackWaitsForEmptyEventLoop := w \<rparr>"

text \<open>
  The promise executor of the wrapper (lines 127 to 171): the handler's synchronous run,
  then the three ways it can end.
\<close>

fun runHandler :: "handler \<Rightarrow> 'e state \<Rightarrow> 'e state" where
  "runHandler (Handler acts c) s =
     (let s1 = foldl perform (s\<lparr> invocations := Suc (invocations s) \<rparr>) acts in
      case c of
        Throws e \<Rightarrow> reject e s1
      | ReturnsThenable \<Rightarrow> s1\<lparr> ASYNC_HANDLER := True \<rparr>
      | Returns v \<Rightarrow> resolve Null s1)"

text \<open>
  \<^verbatim>\<open>processEvents\<close> resumes from \<^verbatim>\<open>await handler(EVENT, CONTEXT)\<close> in a microtask, once
  the promise is settled and the code that settled it has run to its end: lines 66 to 70,
  up to the await of the report.
\<close>

definition resume :: "(jsval \<Rightarrow> 'e) \<Rightarrow> 'e state \<Rightarrow> 'e state" where
  "resume ser s =
     (if exited s = None \<and> awaiting s then
        (case promise s of
           Pending \<Rightarrow> s
         | Fulfilled result \<Rightarrow> invokeResponse result ProcessEventsTry (s\<lparr> awaiting := False \<rparr>)
         | Rejected e \<Rightarrow> invokeError ser e ProcessEventsCatch (s\<lparr> awaiting := False \<rparr>))
      else s)"

text \<open>Lines 74 to 105.\<close>

definition exitPolicy :: "'e state \<Rightarrow> 'e state" where
  "exitPolicy s =
     (if ASYNC_HANDLER s then exit 0 s
      else if CALLBACK_USED s then
        (if callbackWaitsForEmptyEventLoop s = Boolean False then exit 0 s else s)
      else
        (if callbackWaitsForEmptyEventLoop s = Boolean False
         then s\<lparr> EXIT_ON_CALLBACK := True \<rparr> else s))"

fun continue :: "continuation \<Rightarrow> 'e state \<Rightarrow> 'e state" where
  "continue StartCatch s = exit 1 s"
| "continue ProcessEventsCatch s = exit 1 s"
| "continue ProcessEventsTry s = exitPolicy s"
| "continue CallbackCb s = (if EXIT_ON_CALLBACK s then exit 0 s else s)"

text \<open>
  Lines 108 to 124. \<open>loaded\<close> is the result of \<^verbatim>\<open>require(path.resolve(TASK_ROOT))\<close>: an
  exception, or the module as a map from property names to their values (a name outside
  the map reads as \<^verbatim>\<open>undefined\<close>).
\<close>

definition getHandler ::
  "(jsval + (string \<rightharpoonup> export)) \<Rightarrow> string \<Rightarrow> string \<Rightarrow> jsval + handler" where
  "getHandler loaded handlerName origHandlerPath =
     (case loaded of
        Inl e \<Rightarrow> Inl e
      | Inr app \<Rightarrow>
          (case app handlerName of
             Some (Function h) \<Rightarrow> Inr h
           | Some (Value v) \<Rightarrow>
               if v = Undefined \<or> v = Null then
                 Inl (Error (''Handler \"'' @ handlerName @ ''\" missing in \"''
                             @ origHandlerPath @ ''\"''))
               else
                 Inl (Error (''Handler \"'' @ handlerName @ ''\" in \"''
                             @ origHandlerPath @ ''\" is not a function''))
           | None \<Rightarrow>
               Inl (Error (''Handler \"'' @ handlerName @ ''\" missing in \"''
                           @ origHandlerPath @ ''\"''))))"

text \<open>Lines 49 to 72, up to the first await and the microtasks of the main script.\<close>

definition processEvents :: "(jsval \<Rightarrow> 'e) \<Rightarrow> handler \<Rightarrow> 'e state \<Rightarrow> 'e state" where
  "processEvents ser h s = resume ser ((runHandler h s)\<lparr> awaiting := True \<rparr>)"

text \<open>
  Lines 35 to 47: the main script. \<open>waits\<close> is the value of
  \<^verbatim>\<open>callbackWaitsForEmptyEventLoop\<close> in the context seed (\<open>Undefined\<close> when absent).
\<close>

definition start ::
  "(jsval \<Rightarrow> 'e) \<Rightarrow> (jsval + (string \<rightharpoonup> export)) \<Rightarrow> string \<Rightarrow> string \<Rightarrow> jsval \<Rightarrow> 'e state" where
  "start ser loaded handlerName origHandlerPath waits =
     (case getHandler loaded handlerName origHandlerPath of
        Inl e \<Rightarrow> invokeError ser e StartCatch (initial waits)
      | Inr h \<Rightarrow> processEvents ser h (initial waits))"

text \<open>
  One task of the event loop. Nothing runs after \<^verbatim>\<open>process.exit\<close>. A thenable only
  reaches \<^verbatim>\<open>resolve\<close> and \<^verbatim>\<open>reject\<close> when line 163 has subscribed them.
\<close>

fun step :: "(jsval \<Rightarrow> 'e) \<Rightarrow> 'e state \<Rightarrow> task \<Rightarrow> 'e state" where
  "step ser s Confirmed =
     (if exited s \<noteq> None then s
      else case outstanding s of
             [] \<Rightarrow> s
           | (m, k) # rest \<Rightarrow>
               resume ser (continue k (s\<lparr> outstanding := rest, trace := trace s @ [Confirm m] \<rparr>)))"
| "step ser s (Later acts) =
     (if exited s \<noteq> None then s else resume ser (foldl perform s acts))"
| "step ser s (ThenableResolves v) =
     (if exited s \<noteq> None \<or> \<not> ASYNC_HANDLER s then s else resume ser (resolve v s))"
| "step ser s (ThenableRejects e) =
     (if exited s \<noteq> None \<or> \<not> ASYNC_HANDLER s then s else resume ser (reject e s))"

definition run ::
  "(jsval \<Rightarrow> 'e) \<Rightarrow> (jsval + (string \<rightharpoonup> export)) \<Rightarrow> string \<Rightarrow> string \<Rightarrow> jsval \<Rightarrow> task list
     \<Rightarrow> 'e state" where
  "run ser loaded handlerName origHandlerPath waits tasks =
     foldl (step ser) (start ser loaded handlerName origHandlerPath waits) tasks"

section \<open>Vocabulary of the properties\<close>

text \<open>
  An action settles the promise when it reaches \<^verbatim>\<open>resolve\<close> or \<^verbatim>\<open>reject\<close>: every action
  but the assignment of the flag.
\<close>

fun settles :: "action \<Rightarrow> bool" where
  "settles (SetWaits w) = False"
| "settles a = True"

text \<open>The value of \<^verbatim>\<open>callbackWaitsForEmptyEventLoop\<close> after an action, given the one before.\<close>

fun assigned :: "jsval \<Rightarrow> action \<Rightarrow> jsval" where
  "assigned w (SetWaits x) = x"
| "assigned w a = w"

text \<open>A module whose only property is the function \<open>h\<close>, under the name \<^verbatim>\<open>handler\<close>.\<close>

definition module1 :: "handler \<Rightarrow> jsval + (string \<rightharpoonup> export)" where
  "module1 h = Inr (map_of [(''handler'', Function h)])"

text \<open>
  The harness is idle: it has not exited, \<^verbatim>\<open>processEvents\<close> has run to its end without
  arming the exit at the callback, and every unconfirmed message comes from the raw callback.
\<close>

definition idle :: "'e state \<Rightarrow> bool" where
  "idle s \<longleftrightarrow> exited s = None \<and> \<not> awaiting s \<and> \<not> EXIT_ON_CALLBACK s
     \<and> (\<forall>p\<in>set (outstanding s). snd p = CallbackCb)"

text \<open>
  The report of an async-style handler is on its way: the harness has not exited,
  \<^verbatim>\<open>processEvents\<close> waits for the confirmation of message \<open>m\<close>, which is the oldest
  unconfirmed one, and \<open>ASYNC_HANDLER\<close> is set.
\<close>

definition reporting :: "nat \<Rightarrow> 'e state \<Rightarrow> bool" where
  "reporting m s \<longleftrightarrow> exited s = None \<and> \<not> awaiting s \<and> ASYNC_HANDLER s
     \<and> (\<exists>rest. outstanding s = (m, ProcessEventsTry) # rest)"

text \<open>Counting the messages of a trace and the raw-callback calls of handler code.\<close>

fun isSend :: "'e effect \<Rightarrow> bool" where
  "isSend (Send m msg) = True"
| "isSend e = False"

definition sends :: "'e effect list \<Rightarrow> nat" where
  "sends tr = length (filter isSend tr)"

fun isCallback :: "action \<Rightarrow> bool" where
  "isCallback (Callback err data) = True"
| "isCallback a = False"

definition callbacks :: "action list \<Rightarrow> nat" where
  "callbacks acts = length (filter isCallback acts)"

fun callbacksIn :: "task \<Rightarrow> nat" where
  "callbacksIn (Later acts) = callbacks acts"
| "callbacksIn t = 0"

fun callbacksOf :: "jsval + handler \<Rightarrow> nat" where
  "callbacksOf (Inr (Handler acts c)) = callbacks acts"
| "callbacksOf (Inl e) = 0"

text \<open>Messages sent so far, plus one while the report of the settlement is still to come.\<close>

definition due :: "'e state \<Rightarrow> nat" where
  "due s = sends (trace s) + (if awaiting s then 1 else 0)"










section \<open>Basic facts\<close>

lemmas ops = send_def invokeResponse_def invokeError_def exit_def resolve_def reject_def
  succeed_def fail_def done_cb_def callback_def resume_def exitPolicy_def

lemma getHandler_module1: "getHandler (module1 h) ''handler'' orig = Inr h"
  by (simp add: getHandler_def module1_def)

text \<open>A run of handler code that settles nothing only leaves the flag changed.\<close>

lemma foldl_perform_quiet:
  "\<forall>a\<in>set acts. \<not> settles a \<Longrightarrow>
   foldl perform s acts =
     s\<lparr> callbackWaitsForEmptyEventLoop := foldl assigned (callbackWaitsForEmptyEventLoop s) acts \<rparr>"
proof (induction acts arbitrary: s)
  case Nil
  then show ?case by simp
next
  case (Cons a acts)
  then show ?case by (cases a) simp_all
qed

subsection \<open>A settled promise stays as it is\<close>

lemma promise_perform: "promise s \<noteq> Pending \<Longrightarrow> promise (perform s a) = promise s"
  by (cases a) (simp_all add: ops)

lemma promise_foldl_perform:
  "promise s \<noteq> Pending \<Longrightarrow> promise (foldl perform s acts) = promise s"
  by (induction acts arbitrary: s) (simp_all add: promise_perform)

lemma promise_resume: "promise (resume ser s) = promise s"
  by (simp add: ops split: settlement.splits)

lemma promise_continue: "promise (continue k s) = promise s"
  by (cases k) (simp_all add: ops)

lemma promise_step: "promise s \<noteq> Pending \<Longrightarrow> promise (step ser s t) = promise s"
  by (cases t)
     (simp_all add: promise_resume promise_continue promise_foldl_perform resolve_def
        reject_def split: list.splits)

lemma promise_steps:
  "promise s \<noteq> Pending \<Longrightarrow> promise (foldl (step ser) s ts) = promise s"
  by (induction ts arbitrary: s) (simp_all add: promise_step)

subsection \<open>The trace only grows\<close>

lemma trace_perform: "prefix (trace s) (trace (perform s a))"
  by (cases a) (simp_all add: ops)

lemma trace_foldl_perform: "prefix (trace s) (trace (foldl perform s acts))"
proof (induction acts arbitrary: s)
  case Nil
  then show ?case by simp
next
  case (Cons a acts)
  have "prefix (trace s) (trace (perform s a))" by (rule trace_perform)
  also have "prefix \<dots> (trace (foldl perform (perform s a) acts))" by (rule Cons.IH)
  finally show ?case by simp
qed

lemma trace_resume: "prefix (trace s) (trace (resume ser s))"
  by (simp add: ops split: settlement.splits)

lemma trace_continue: "prefix (trace s) (trace (continue k s))"
  by (cases k) (simp_all add: ops)

lemma trace_step: "prefix (trace s) (trace (step ser s t))"
proof (cases t)
  case Confirmed
  show ?thesis
  proof (cases "exited s \<noteq> None \<or> outstanding s = []")
    case True
    then show ?thesis using Confirmed by (auto split: list.splits)
  next
    case False
    then obtain m k rest where o: "outstanding s = (m, k) # rest"
      by (cases "outstanding s") auto
    let ?s1 = "s\<lparr> outstanding := rest, trace := trace s @ [Confirm m] \<rparr>"
    have "prefix (trace s) (trace ?s1)" by simp
    also have "prefix \<dots> (trace (continue k ?s1))" by (rule trace_continue)
    also have "prefix \<dots> (trace (resume ser (continue k ?s1)))" by (rule trace_resume)
    finally show ?thesis using Confirmed False o by simp
  qed
next
  case (Later acts)
  have "prefix (trace s) (trace (foldl perform s acts))" by (rule trace_foldl_perform)
  also have "prefix \<dots> (trace (resume ser (foldl perform s acts)))" by (rule trace_resume)
  finally show ?thesis using Later by simp
next
  case (ThenableResolves v)
  have "prefix (trace s) (trace (resume ser (resolve v s)))"
    using trace_resume [of "resolve v s" ser] by (simp add: resolve_def split: if_splits)
  then show ?thesis using ThenableResolves by simp
next
  case (ThenableRejects e)
  have "prefix (trace s) (trace (resume ser (reject e s)))"
    using trace_resume [of "reject e s" ser] by (simp add: reject_def split: if_splits)
  then show ?thesis using ThenableRejects by simp
qed

lemma trace_steps: "prefix (trace s) (trace (foldl (step ser) s ts))"
proof (induction ts arbitrary: s)
  case Nil
  then show ?case by simp
next
  case (Cons t ts)
  have "prefix (trace s) (trace (step ser s t))" by (rule trace_step)
  also have "prefix \<dots> (trace (foldl (step ser) (step ser s t) ts))" by (rule Cons.IH)
  finally show ?case by simp
qed

section \<open>A handler that returns a plain value\<close>




section \<open>Nothing runs after the exit\<close>

lemma step_after_exit: "exited s \<noteq> None \<Longrightarrow> step ser s t = s"
  by (cases t) simp_all

lemma steps_after_exit: "exited s \<noteq> None \<Longrightarrow> foldl (step ser) s ts = s"
  by (induction ts) (simp_all add: step_after_exit)

section \<open>A handler that throws\<close>

lemma start_throws:
  assumes "getHandler loaded name orig = Inr (Handler acts (Throws e))"
    and "\<forall>a\<in>set acts. \<not> settles a"
  shows "start ser loaded name orig waits =
     (initial waits)\<lparr> promise := Rejected e, invocations := 1,
        callbackWaitsForEmptyEventLoop := foldl assigned waits acts,
        outstanding := [(0, ProcessEventsCatch)], trace := [Send 0 (Failure (ser e))],
        sent := 1 \<rparr>"
  using assms
  by (simp add: start_def processEvents_def foldl_perform_quiet ops initial_def)

text \<open>
  C8. A handler that throws \<open>e\<close> during its synchronous run, before reaching any completion
  entry point, rejects the promise with \<open>e\<close>; the failure message carrying the serialized
  \<open>e\<close> is sent and nothing exits yet; at the confirmation of that message, and only then,
  the process exits with status 1, and this is the end of the trace whatever follows.
\<close>

theorem sync_throw_fails_then_exits_1:
  assumes "getHandler loaded name orig = Inr (Handler acts (Throws e))"
    and "\<forall>a\<in>set acts. \<not> settles a"
  shows "promise (run ser loaded name orig waits []) = Rejected e
       \<and> trace (run ser loaded name orig waits []) = [Send 0 (Failure (ser e))]
       \<and> exited (run ser loaded name orig waits []) = None
       \<and> trace (run ser loaded name orig waits (Confirmed # ts))
           = [Send 0 (Failure (ser e)), Confirm 0, Exit 1]
       \<and> exited (run ser loaded name orig waits (Confirmed # ts)) = Some 1"
proof -
  let ?s = "start ser loaded name orig waits"
  have s: "?s = (initial waits)\<lparr> promise := Rejected e, invocations := 1,
        callbackWaitsForEmptyEventLoop := foldl assigned waits acts,
        outstanding := [(0, ProcessEventsCatch)], trace := [Send 0 (Failure (ser e))],
        sent := 1 \<rparr>"
    using assms by (rule start_throws)
  define s1 where "s1 = step ser ?s Confirmed"
  have c: "trace s1 = [Send 0 (Failure (ser e)), Confirm 0, Exit 1]" "exited s1 = Some 1"
    by (simp_all add: s1_def s initial_def ops)
  have "foldl (step ser) s1 ts = s1"
    by (rule steps_after_exit) (simp add: c)
  then have "run ser loaded name orig waits (Confirmed # ts) = s1"
    by (simp add: run_def s1_def)
  moreover have "run ser loaded name orig waits [] = ?s"
    by (simp add: run_def)
  ultimately show ?thesis by (simp add: c) (simp add: s initial_def)
qed

theorem sync_throw_fails_then_exits_1_witness:
  "promise (run Some (module1 (Handler [] (Throws (Error ''boom'')))) ''handler'' ''foo/bar'' Undefined []) = Rejected (Error ''boom'')
   \<and> trace (run Some (module1 (Handler [] (Throws (Error ''boom'')))) ''handler'' ''foo/bar'' Undefined [Confirmed])
       = [Send 0 (Failure (Some (Error ''boom''))), Confirm 0, Exit 1]"
  using sync_throw_fails_then_exits_1
    [where loaded = "module1 (Handler [] (Throws (Error ''boom'')))" and name = "''handler''"
       and orig = "''foo/bar''" and acts = "[]" and e = "Error ''boom''" and ser = Some
       and waits = Undefined and ts = "[]"]
  by (simp add: getHandler_module1)

section \<open>A missing export\<close>

text \<open>The user handler is only ever called by the main script.\<close>

lemma invocations_perform: "invocations (perform s a) = invocations s"
  by (cases a) (simp_all add: ops)

lemma invocations_foldl_perform: "invocations (foldl perform s acts) = invocations s"
  by (induction acts arbitrary: s) (simp_all add: invocations_perform)

lemma invocations_resume: "invocations (resume ser s) = invocations s"
  by (simp add: ops split: settlement.splits)

lemma invocations_continue: "invocations (continue k s) = invocations s"
  by (cases k) (simp_all add: ops)

lemma invocations_step: "invocations (step ser s t) = invocations s"
  by (cases t)
     (simp_all add: invocations_resume invocations_continue invocations_foldl_perform
        resolve_def reject_def split: list.splits)

lemma invocations_steps: "invocations (foldl (step ser) s ts) = invocations s"
  by (induction ts arbitrary: s) (simp_all add: invocations_step)

text \<open>
  C9. When the property looked up in the module is absent, \<^verbatim>\<open>undefined\<close> or \<^verbatim>\<open>null\<close>,
  \<^verbatim>\<open>getHandler\<close> throws an error whose message quotes the handler name and the original
  handler path; the failure message with that error is sent, the process exits with status
  1 at its confirmation, and in no run has a handler been called.
\<close>

theorem missing_export_fails_without_invocation:
  assumes "app name = None \<or> app name = Some (Value Undefined) \<or> app name = Some (Value Null)"
  shows "getHandler (Inr app) name orig = Inl (Error (''Handler \"'' @ name @ ''\" missing in \"'' @ orig @ ''\"''))
       \<and> trace (run ser (Inr app) name orig waits [])
           = [Send 0 (Failure (ser (Error (''Handler \"'' @ name @ ''\" missing in \"'' @ orig @ ''\"''))))]
       \<and> exited (run ser (Inr app) name orig waits []) = None
       \<and> trace (run ser (Inr app) name orig waits (Confirmed # ts))
           = [Send 0 (Failure (ser (Error (''Handler \"'' @ name @ ''\" missing in \"'' @ orig @ ''\"'')))),
              Confirm 0, Exit 1]
       \<and> exited (run ser (Inr app) name orig waits (Confirmed # ts)) = Some 1
       \<and> invocations (run ser (Inr app) name orig waits us) = 0"
proof -
  let ?e = "Error (''Handler \"'' @ name @ ''\" missing in \"'' @ orig @ ''\"'')"
  let ?s = "start ser (Inr app) name orig waits"
  have g: "getHandler (Inr app) name orig = Inl ?e"
    using assms by (auto simp: getHandler_def)
  have s: "?s = (initial waits)\<lparr> outstanding := [(0, StartCatch)],
      trace := [Send 0 (Failure (ser ?e))], sent := 1 \<rparr>"
    by (simp add: start_def g ops initial_def)
  define s1 where "s1 = step ser ?s Confirmed"
  have c: "trace s1 = [Send 0 (Failure (ser ?e)), Confirm 0, Exit 1]" "exited s1 = Some 1"
    by (simp_all add: s1_def s initial_def ops)
  have "foldl (step ser) s1 ts = s1"
    by (rule steps_after_exit) (simp add: c)
  then have "run ser (Inr app) name orig waits (Confirmed # ts) = s1"
    by (simp add: run_def s1_def)
  moreover have "run ser (Inr app) name orig waits [] = ?s"
    by (simp add: run_def)
  moreover have "invocations (run ser (Inr app) name orig waits us) = 0"
    unfolding run_def invocations_steps by (simp add: s initial_def)
  ultimately show ?thesis using g by (simp add: c) (simp add: s initial_def)
qed

theorem missing_export_fails_without_invocation_witness:
  "getHandler (Inr (map_of [(''other'', Value (Number 1))])) ''handler'' ''foo/bar''
     = Inl (Error ''Handler \"handler\" missing in \"foo/bar\"'')
   \<and> trace (run Some (Inr (map_of [(''other'', Value (Number 1))])) ''handler'' ''foo/bar'' Undefined [Confirmed])
       = [Send 0 (Failure (Some (Error ''Handler \"handler\" missing in \"foo/bar\"''))), Confirm 0, Exit 1]
   \<and> invocations (run Some (Inr (map_of [(''other'', Value (Number 1))])) ''handler'' ''foo/bar'' Undefined [Confirmed]) = 0"
  using missing_export_fails_without_invocation
    [where app = "map_of [(''other'', Value (Number 1))]" and name = "''handler''"
       and ser = Some and orig = "''foo/bar''" and waits = Undefined and ts = "[]"
       and us = "[Confirmed]"]
  by simp

section \<open>A late callback after a plain return\<close>



section \<open>A synchronous callback\<close>

lemma idle_perform: "idle s \<Longrightarrow> idle (perform s a)"
  by (cases a) (auto simp: idle_def ops)

lemma idle_foldl_perform: "idle s \<Longrightarrow> idle (foldl perform s acts)"
  by (induction acts arbitrary: s) (simp_all add: idle_perform)

lemma idle_resume: "\<not> awaiting s \<Longrightarrow> resume ser s = s"
  by (simp add: resume_def)

lemma idle_step: "idle s \<Longrightarrow> idle (step ser s t)"
proof (cases t)
  case Confirmed
  assume i: "idle s"
  show ?thesis
  proof (cases "outstanding s")
    case Nil
    then show ?thesis using i Confirmed by simp
  next
    case (Cons p rest)
    obtain m k where p: "p = (m, k)" by (cases p)
    have k: "k = CallbackCb" using i Cons p by (simp add: idle_def)
    let ?s1 = "s\<lparr> outstanding := rest, trace := trace s @ [Confirm m] \<rparr>"
    have "idle ?s1" using i Cons by (simp add: idle_def)
    moreover have "step ser s Confirmed = ?s1"
      using i Cons p k by (simp add: idle_def resume_def)
    ultimately show ?thesis using Confirmed by simp
  qed
next
  case (Later acts)
  assume i: "idle s"
  then have "idle (foldl perform s acts)" by (rule idle_foldl_perform)
  then have "idle (resume ser (foldl perform s acts))"
    by (simp add: idle_resume idle_def)
  then show ?thesis using Later i by (simp add: idle_def)
next
  case (ThenableResolves v)
  assume i: "idle s"
  then have "idle (resume ser (resolve v s))" by (simp add: idle_def ops)
  then show ?thesis using ThenableResolves i by simp
next
  case (ThenableRejects e)
  assume i: "idle s"
  then have "idle (resume ser (reject e s))" by (simp add: idle_def ops)
  then show ?thesis using ThenableRejects i by simp
qed

lemma idle_steps: "idle s \<Longrightarrow> idle (foldl (step ser) s ts)"
  by (induction ts arbitrary: s) (simp_all add: idle_step)

lemma start_sync_callback:
  assumes "getHandler loaded name orig = Inr (Handler (pre @ Callback err v # post) (Returns r))"
    and "\<forall>a\<in>set pre. \<not> settles a" and "\<forall>a\<in>set post. \<not> settles a"
    and "\<not> truthy err"
  shows "start ser loaded name orig waits =
     (initial waits)\<lparr> promise := Fulfilled v, CALLBACK_USED := True, invocations := 1,
        callbackWaitsForEmptyEventLoop := foldl assigned waits (pre @ Callback err v # post),
        outstanding := [(0, CallbackCb), (1, ProcessEventsTry)],
        trace := [Send 0 (Success (payload v)), Send 1 (Success (payload v))],
        sent := 2 \<rparr>"
  using assms
  by (simp add: start_def processEvents_def foldl_perform_quiet ops initial_def)

text \<open>
  C5. The handler's synchronous run calls the raw callback once, with a falsy error and
  the value \<open>v\<close>, reaches no other completion entry point, and returns a plain value. The
  promise is settled with \<open>v\<close> for good, and \<open>v\<close> is what is sent. When the flag is
  \<^verbatim>\<open>false\<close> as the handler returns, the process exits with status 0 as soon as the report
  is confirmed. When the flag is anything else (absent or \<^verbatim>\<open>true\<close>), the harness never
  exits, whatever happens afterwards.
\<close>

theorem sync_callback_success_exit_policy:
  assumes "getHandler loaded name orig = Inr (Handler (pre @ Callback err v # post) (Returns r))"
    and "\<forall>a\<in>set pre. \<not> settles a" and "\<forall>a\<in>set post. \<not> settles a"
    and "\<not> truthy err"
  shows "promise (run ser loaded name orig waits ts) = Fulfilled v
       \<and> trace (run ser loaded name orig waits [])
           = [Send 0 (Success (payload v)), Send 1 (Success (payload v))]
       \<and> (foldl assigned waits (pre @ Callback err v # post) = Boolean False \<longrightarrow>
            trace (run ser loaded name orig waits (Confirmed # Confirmed # ts))
              = [Send 0 (Success (payload v)), Send 1 (Success (payload v)),
                 Confirm 0, Confirm 1, Exit 0]
            \<and> exited (run ser loaded name orig waits (Confirmed # Confirmed # ts)) = Some 0)
       \<and> (foldl assigned waits (pre @ Callback err v # post) \<noteq> Boolean False \<longrightarrow>
            trace (run ser loaded name orig waits [Confirmed, Confirmed])
              = [Send 0 (Success (payload v)), Send 1 (Success (payload v)),
                 Confirm 0, Confirm 1]
            \<and> exited (run ser loaded name orig waits (Confirmed # Confirmed # ts)) = None)"
proof -
  let ?s = "start ser loaded name orig waits"
  let ?w = "foldl assigned waits (pre @ Callback err v # post)"
  note s = start_sync_callback [OF assms, of ser waits]
  have p: "promise (run ser loaded name orig waits ts) = Fulfilled v"
  proof -
    have "promise (foldl (step ser) ?s ts) = promise ?s"
      by (rule promise_steps) (simp add: s)
    then show ?thesis by (simp add: run_def) (simp add: s)
  qed
  have t0: "trace (run ser loaded name orig waits [])
      = [Send 0 (Success (payload v)), Send 1 (Success (payload v))]"
    by (simp add: run_def) (simp add: s)
  define s2 where "s2 = step ser (step ser ?s Confirmed) Confirmed"
  have r: "run ser loaded name orig waits (Confirmed # Confirmed # ts) = foldl (step ser) s2 ts"
    by (simp add: run_def s2_def)
  have r0: "run ser loaded name orig waits [Confirmed, Confirmed] = s2"
    by (simp add: run_def s2_def)
  have a: "trace (foldl (step ser) s2 ts)
      = [Send 0 (Success (payload v)), Send 1 (Success (payload v)), Confirm 0, Confirm 1, Exit 0]
      \<and> exited (foldl (step ser) s2 ts) = Some 0" if w: "?w = Boolean False"
  proof -
    have e: "trace s2 = [Send 0 (Success (payload v)), Send 1 (Success (payload v)),
        Confirm 0, Confirm 1, Exit 0]" "exited s2 = Some 0"
      using w by (simp_all add: s2_def s initial_def ops)
    have "foldl (step ser) s2 ts = s2"
      by (rule steps_after_exit) (simp add: e)
    then show ?thesis by (simp add: e)
  qed
  have b: "trace s2 = [Send 0 (Success (payload v)), Send 1 (Success (payload v)),
        Confirm 0, Confirm 1] \<and> exited (foldl (step ser) s2 ts) = None" if w: "?w \<noteq> Boolean False"
  proof -
    have e: "trace s2 = [Send 0 (Success (payload v)), Send 1 (Success (payload v)),
        Confirm 0, Confirm 1]" "idle s2"
      using w by (simp_all add: s2_def s initial_def ops idle_def)
    have "idle (foldl (step ser) s2 ts)" using e(2) by (rule idle_steps)
    then show ?thesis using e by (simp add: idle_def)
  qed
  show ?thesis using p t0 a b unfolding r r0 by blast
qed

theorem sync_callback_success_exit_policy_witness:
  "trace (run Some (module1 (Handler [SetWaits (Boolean False), Callback Null (Number 7)] (Returns Undefined)))
      ''handler'' ''foo/bar'' Undefined [Confirmed, Confirmed])
     = [Send 0 (Success (Number 7)), Send 1 (Success (Number 7)), Confirm 0, Confirm 1, Exit 0]
   \<and> exited (run Some (module1 (Handler [Callback Null (Number 7)] (Returns Undefined)))
      ''handler'' ''foo/bar'' Undefined [Confirmed, Confirmed, Later [SetWaits (Boolean False)], Confirmed])
     = None"
  using sync_callback_success_exit_policy
    [where loaded = "module1 (Handler [SetWaits (Boolean False), Callback Null (Number 7)] (Returns Undefined))"
       and name = "''handler''" and orig = "''foo/bar''"
       and pre = "[SetWaits (Boolean False)]" and err = Null and v = "Number 7" and post = "[]"
       and r = Undefined and waits = Undefined and ser = Some and ts = "[]"]
    sync_callback_success_exit_policy
    [where loaded = "module1 (Handler [Callback Null (Number 7)] (Returns Undefined))"
       and name = "''handler''" and orig = "''foo/bar''"
       and pre = "[]" and err = Null and v = "Number 7" and post = "[]"
       and r = Undefined and waits = Undefined and ser = Some
       and ts = "[Later [SetWaits (Boolean False)], Confirmed]"]
  by (simp add: getHandler_module1 payload_def)

section \<open>A handler that returns a thenable\<close>

lemma reporting_perform: "reporting m s \<Longrightarrow> reporting m (perform s a)"
  by (cases a) (auto simp: reporting_def ops)

lemma reporting_foldl_perform: "reporting m s \<Longrightarrow> reporting m (foldl perform s acts)"
  by (induction acts arbitrary: s) (simp_all add: reporting_perform)

lemma reporting_later: "reporting m s \<Longrightarrow> reporting m (step ser s (Later acts))"
proof -
  assume r: "reporting m s"
  then have "reporting m (foldl perform s acts)" by (rule reporting_foldl_perform)
  then have "reporting m (resume ser (foldl perform s acts))"
    by (simp add: reporting_def resume_def)
  then show ?thesis using r by (simp add: reporting_def)
qed

lemma reporting_laters:
  "reporting m s \<Longrightarrow> reporting m (foldl (step ser) s (map Later lates))"
proof (induction lates arbitrary: s)
  case Nil
  then show ?case by simp
next
  case (Cons acts lates)
  from Cons.prems have "reporting m (step ser s (Later acts))" by (rule reporting_later)
  then have "reporting m (foldl (step ser) (step ser s (Later acts)) (map Later lates))"
    by (rule Cons.IH)
  then show ?case by (simp del: step.simps)
qed

lemma reporting_confirmed:
  assumes "reporting m s"
  shows "trace (step ser s Confirmed) = trace s @ [Confirm m, Exit 0]
       \<and> exited (step ser s Confirmed) = Some 0"
proof -
  from assms obtain rest where o: "outstanding s = (m, ProcessEventsTry) # rest"
    by (auto simp: reporting_def)
  show ?thesis using assms o by (simp add: reporting_def ops)
qed

lemma start_thenable:
  assumes "getHandler loaded name orig = Inr (Handler acts ReturnsThenable)"
    and "\<forall>a\<in>set acts. \<not> settles a"
  shows "start ser loaded name orig waits =
     (initial waits)\<lparr> ASYNC_HANDLER := True, invocations := 1, awaiting := True,
        callbackWaitsForEmptyEventLoop := foldl assigned waits acts \<rparr>"
  using assms
  by (simp add: start_def processEvents_def foldl_perform_quiet ops initial_def)

text \<open>
  C6. The handler returned a thenable without reaching a completion entry point, and the
  thenable resolves to \<open>v\<close>. The promise is settled with \<open>v\<close> for good and the success
  message with \<open>v\<close> is sent at once. Whatever the handler does before that message is
  confirmed (assign the flag, call the raw callback, call the other entry points), and
  whatever the flag was, the confirmation is followed by the exit with status 0.
\<close>

theorem thenable_success_exits_0:
  assumes "getHandler loaded name orig = Inr (Handler acts ReturnsThenable)"
    and "\<forall>a\<in>set acts. \<not> settles a"
  shows "promise (run ser loaded name orig waits (ThenableResolves v # ts)) = Fulfilled v
       \<and> trace (run ser loaded name orig waits [ThenableResolves v])
           = [Send 0 (Success (payload v))]
       \<and> exited (run ser loaded name orig waits [ThenableResolves v]) = None
       \<and> (\<exists>mid. trace (run ser loaded name orig waits
                    (ThenableResolves v # map Later lates @ Confirmed # ts))
                  = Send 0 (Success (payload v)) # mid @ [Confirm 0, Exit 0])
       \<and> exited (run ser loaded name orig waits
                    (ThenableResolves v # map Later lates @ Confirmed # ts)) = Some 0"
proof -
  let ?s = "start ser loaded name orig waits"
  note s = start_thenable [OF assms, of ser waits]
  define s1 where "s1 = step ser ?s (ThenableResolves v)"
  have s1: "s1 = (initial waits)\<lparr> ASYNC_HANDLER := True, invocations := 1,
        callbackWaitsForEmptyEventLoop := foldl assigned waits acts,
        promise := Fulfilled v, outstanding := [(0, ProcessEventsTry)],
        trace := [Send 0 (Success (payload v))], sent := 1 \<rparr>"
    by (simp add: s1_def s initial_def ops)
  have p: "promise (run ser loaded name orig waits (ThenableResolves v # ts)) = Fulfilled v"
  proof -
    have "promise (foldl (step ser) s1 ts) = promise s1"
      by (rule promise_steps) (simp add: s1)
    moreover have "run ser loaded name orig waits (ThenableResolves v # ts)
        = foldl (step ser) s1 ts"
      by (simp add: run_def s1_def del: step.simps)
    ultimately show ?thesis by (simp add: s1)
  qed
  have r1: "run ser loaded name orig waits [ThenableResolves v] = s1"
    by (simp add: run_def s1_def del: step.simps)
  define s2 where "s2 = foldl (step ser) s1 (map Later lates)"
  define s3 where "s3 = step ser s2 Confirmed"
  have "reporting 0 s1" by (simp add: s1 reporting_def initial_def)
  then have "reporting 0 s2" unfolding s2_def by (rule reporting_laters)
  then have c: "trace s3 = trace s2 @ [Confirm 0, Exit 0]" "exited s3 = Some 0"
    unfolding s3_def by (simp_all add: reporting_confirmed del: step.simps)
  have "prefix (trace s1) (trace s2)" unfolding s2_def by (rule trace_steps)
  then obtain mid where m: "trace s2 = Send 0 (Success (payload v)) # mid"
    by (auto simp: prefix_def s1)
  have "foldl (step ser) s3 ts = s3"
    by (rule steps_after_exit) (simp add: c)
  then have r3: "run ser loaded name orig waits
      (ThenableResolves v # map Later lates @ Confirmed # ts) = s3"
    by (simp add: run_def s3_def s2_def s1_def del: step.simps)
  have "trace s3 = Send 0 (Success (payload v)) # mid @ [Confirm 0, Exit 0]"
    by (simp add: c m)
  then show ?thesis using p c(2) unfolding r1 r3 by (auto simp: s1 initial_def)
qed

theorem thenable_success_exits_0_witness:
  "promise (run Some (module1 (Handler [] ReturnsThenable)) ''handler'' ''foo/bar''
      (Boolean True) [ThenableResolves (Number 9)]) = Fulfilled (Number 9)
   \<and> exited (run Some (module1 (Handler [] ReturnsThenable)) ''handler'' ''foo/bar''
      (Boolean True) [ThenableResolves (Number 9), Later [Callback Null (Number 2)], Confirmed])
     = Some 0"
  using thenable_success_exits_0
    [where loaded = "module1 (Handler [] ReturnsThenable)" and name = "''handler''"
       and orig = "''foo/bar''" and acts = "[]" and waits = "Boolean True" and ser = Some
       and v = "Number 9" and lates = "[[Callback Null (Number 2)]]" and ts = "[]"]
  by (simp add: getHandler_module1)

section \<open>The raw callback\<close>







section \<open>How many messages are sent\<close>

lemma sends_append: "sends (xs @ ys) = sends xs + sends ys"
  by (simp add: sends_def)

lemma due_perform: "due (perform s a) = due s + (if isCallback a then 1 else 0)"
  by (cases a) (simp_all add: due_def ops sends_append sends_def)

lemma due_foldl_perform: "due (foldl perform s acts) = due s + callbacks acts"
  by (induction acts arbitrary: s) (simp_all add: due_perform callbacks_def)

lemma due_resume: "due (resume ser s) \<le> due s"
  by (simp add: due_def ops sends_append sends_def split: settlement.splits)

lemma due_continue: "due (continue k s) = due s"
  by (cases k) (simp_all add: due_def ops sends_append sends_def)

lemma due_step: "due (step ser s t) \<le> due s + callbacksIn t"
proof (cases t)
  case Confirmed
  show ?thesis
  proof (cases "exited s \<noteq> None \<or> outstanding s = []")
    case True
    then show ?thesis using Confirmed by (auto split: list.splits)
  next
    case False
    then obtain m k rest where o: "outstanding s = (m, k) # rest"
      by (cases "outstanding s") auto
    let ?s1 = "s\<lparr> outstanding := rest, trace := trace s @ [Confirm m] \<rparr>"
    have "due (resume ser (continue k ?s1)) \<le> due (continue k ?s1)" by (rule due_resume)
    also have "\<dots> = due ?s1" by (rule due_continue)
    also have "\<dots> = due s" by (simp add: due_def sends_append sends_def)
    finally show ?thesis using Confirmed False o by simp
  qed
next
  case (Later acts)
  have "due (resume ser (foldl perform s acts)) \<le> due (foldl perform s acts)"
    by (rule due_resume)
  also have "\<dots> = due s + callbacks acts" by (rule due_foldl_perform)
  finally show ?thesis using Later by simp
next
  case (ThenableResolves v)
  have "due (resume ser (resolve v s)) \<le> due (resolve v s)" by (rule due_resume)
  also have "\<dots> = due s" by (simp add: due_def resolve_def)
  finally show ?thesis using ThenableResolves by simp
next
  case (ThenableRejects e)
  have "due (resume ser (reject e s)) \<le> due (reject e s)" by (rule due_resume)
  also have "\<dots> = due s" by (simp add: due_def reject_def)
  finally show ?thesis using ThenableRejects by simp
qed

lemma due_steps: "due (foldl (step ser) s ts) \<le> due s + sum_list (map callbacksIn ts)"
proof (induction ts arbitrary: s)
  case Nil
  then show ?case by simp
next
  case (Cons t ts)
  have "due (foldl (step ser) (step ser s t) ts)
      \<le> due (step ser s t) + sum_list (map callbacksIn ts)"
    by (rule Cons.IH)
  also have "\<dots> \<le> due s + callbacksIn t + sum_list (map callbacksIn ts)"
    using due_step [of ser s t] by simp
  finally show ?case by simp
qed

lemma due_resolve: "due (resolve v s) = due s"
  by (simp add: due_def resolve_def)

lemma due_reject: "due (reject e s) = due s"
  by (simp add: due_def reject_def)

lemma due_runHandler: "due (runHandler h s) = due s + callbacksOf (Inr h)"
proof (cases h)
  case (Handler acts c)
  let ?s1 = "foldl perform (s\<lparr> invocations := Suc (invocations s) \<rparr>) acts"
  have "due ?s1 = due (s\<lparr> invocations := Suc (invocations s) \<rparr>) + callbacks acts"
    by (rule due_foldl_perform)
  then have s1: "due ?s1 = due s + callbacks acts" by (simp add: due_def)
  have "due (?s1\<lparr> ASYNC_HANDLER := True \<rparr>) = due ?s1" by (simp add: due_def)
  then show ?thesis using Handler s1
    by (cases c) (simp_all add: Let_def due_resolve due_reject)
qed

lemma due_start:
  "due (start ser loaded name orig waits) \<le> 1 + callbacksOf (getHandler loaded name orig)"
proof (cases "getHandler loaded name orig")
  case (Inl e)
  then show ?thesis by (simp add: start_def due_def ops initial_def sends_def)
next
  case (Inr h)
  let ?s0 = "initial waits :: 'a state"
  let ?s1 = "(runHandler h ?s0)\<lparr> awaiting := True \<rparr>"
  have "due (resume ser ?s1) \<le> due ?s1" by (rule due_resume)
  also have "\<dots> \<le> 1 + due (runHandler h ?s0)" by (simp add: due_def)
  also have "\<dots> = 1 + (due ?s0 + callbacksOf (Inr h))" by (simp only: due_runHandler)
  also have "\<dots> = 1 + callbacksOf (Inr h)" by (simp add: due_def initial_def sends_def)
  finally show ?thesis using Inr by (simp add: start_def processEvents_def)
qed

text \<open>
  C1, as stated, fails: a handler that calls the raw callback once during its synchronous
  run causes two messages, one sent by the callback and one by \<^verbatim>\<open>processEvents\<close>.
\<close>

theorem sync_callback_sends_two_messages:
  "\<not> sends (trace (run Some (module1 (Handler [Callback Null (Number 5)] (Returns Undefined)))
        ''handler'' ''foo/bar'' Undefined [])) \<le> 1"
  by (simp add: run_def start_def getHandler_module1 processEvents_def ops initial_def
      sends_def)

text \<open>
  C1, amended. The settlement of the promise is reported at most once, and a completion
  signal through \<^verbatim>\<open>context.succeed\<close>, \<^verbatim>\<open>context.fail\<close>, \<^verbatim>\<open>context.done\<close> or the returned
  thenable never causes a message of its own; every message beyond that one report is
  sent by a call of the raw callback. So the messages sent in a run are at most one more
  than the raw-callback calls in the handler's synchronous run and in the later tasks.
\<close>

theorem messages_bounded_by_callbacks:
  "sends (trace (run ser loaded name orig waits ts))
     \<le> 1 + callbacksOf (getHandler loaded name orig) + sum_list (map callbacksIn ts)"
proof -
  let ?s = "start ser loaded name orig waits"
  have "sends (trace (foldl (step ser) ?s ts)) \<le> due (foldl (step ser) ?s ts)"
    by (simp add: due_def)
  also have "\<dots> \<le> due ?s + sum_list (map callbacksIn ts)" by (rule due_steps)
  also have "\<dots> \<le> 1 + callbacksOf (getHandler loaded name orig) + sum_list (map callbacksIn ts)"
    using due_start [of ser loaded name orig waits] by simp
  finally show ?thesis by (simp add: run_def)
qed

theorem messages_bounded_by_callbacks_witness:
  "sends (trace (run Some (module1 (Handler [Succeed (Number 1), Done Null (Number 2)] (Returns Undefined)))
      ''handler'' ''foo/bar'' Undefined [Later [Fail (Error ''late''), Succeed (Number 3)], Confirmed]))
     \<le> 1"
  using messages_bounded_by_callbacks
    [where loaded = "module1 (Handler [Succeed (Number 1), Done Null (Number 2)] (Returns Undefined))"
       and name = "''handler''" and orig = "''foo/bar''" and waits = Undefined and ser = Some
       and ts = "[Later [Fail (Error ''late''), Succeed (Number 3)], Confirmed]"]
  by (simp add: getHandler_module1 callbacks_def)

section \<open>Exits and confirmations\<close>



















end
